theory Spec2Isabelle
  imports Complex_Main "HOL-Library.Word"
begin

section \<open>Values seen by the variance/stddev kernel\<close>

text \<open>
  The kernel of \<^verbatim>\<open>aggregate_var_std.cc\<close> keeps its accumulator in C++ \<^verbatim>\<open>double\<close>s.
  They are modelled by the reals: every operation is the exact one, without rounding,
  infinities or NaN. Counts are \<^verbatim>\<open>int64_t\<close> in the source; array lengths never come near
  the ends of that range, so counts are unbounded integers here.
\<close>

type_synonym double = real

text \<open>An array is a sequence of slots; a null slot (validity bit cleared) is \<open>None\<close>.\<close>

type_synonym 'a Array = "'a option list"

datatype 'a Scalar = Scalar (is_valid: bool) (scalar_value: 'a)

datatype 'a Datum = ArrayDatum "'a Array" | ScalarDatum "'a Scalar"

text \<open>
  The kernels are unary: the batch handed to \<^verbatim>\<open>Consume\<close> has one column, read as
  \<^verbatim>\<open>batch[0]\<close>, and a length.
\<close>

record 'a ExecBatch =
  column0 :: "'a Datum"
  batch_length :: int

text \<open>
  The template parameter \<^verbatim>\<open>ArrowType\<close> is passed as a descriptor: the size of its C type,
  whether it is a floating type, and the two conversions of a value the kernel uses
  (\<^verbatim>\<open>static_cast<double>\<close>, and the integer value that \<^verbatim>\<open>ConsumeOne\<close> and the 128-bit sum
  add up).
\<close>

record 'a ArrowType =
  sizeof_ctype :: nat
  is_floating_type :: bool
  to_double :: "'a \<Rightarrow> double"
  to_integer :: "'a \<Rightarrow> int"

definition Int8Type :: "8 word ArrowType" where
  "Int8Type = \<lparr>sizeof_ctype = 1, is_floating_type = False,
     to_double = (\<lambda>v. real_of_int (sint v)), to_integer = sint\<rparr>"

definition UInt8Type :: "8 word ArrowType" where
  "UInt8Type = \<lparr>sizeof_ctype = 1, is_floating_type = False,
     to_double = (\<lambda>v. real_of_int (uint v)), to_integer = uint\<rparr>"

definition Int16Type :: "16 word ArrowType" where
  "Int16Type = \<lparr>sizeof_ctype = 2, is_floating_type = False,
     to_double = (\<lambda>v. real_of_int (sint v)), to_integer = sint\<rparr>"

definition UInt16Type :: "16 word ArrowType" where
  "UInt16Type = \<lparr>sizeof_ctype = 2, is_floating_type = False,
     to_double = (\<lambda>v. real_of_int (uint v)), to_integer = uint\<rparr>"

definition Int32Type :: "32 word ArrowType" where
  "Int32Type = \<lparr>sizeof_ctype = 4, is_floating_type = False,
     to_double = (\<lambda>v. real_of_int (sint v)), to_integer = sint\<rparr>"

definition UInt32Type :: "32 word ArrowType" where
  "UInt32Type = \<lparr>sizeof_ctype = 4, is_floating_type = False,
     to_double = (\<lambda>v. real_of_int (uint v)), to_integer = uint\<rparr>"

definition Int64Type :: "64 word ArrowType" where
  "Int64Type = \<lparr>sizeof_ctype = 8, is_floating_type = False,
     to_double = (\<lambda>v. real_of_int (sint v)), to_integer = sint\<rparr>"

definition UInt64Type :: "64 word ArrowType" where
  "UInt64Type = \<lparr>sizeof_ctype = 8, is_floating_type = False,
     to_double = (\<lambda>v. real_of_int (uint v)), to_integer = uint\<rparr>"

definition FloatType :: "double ArrowType" where
  "FloatType = \<lparr>sizeof_ctype = 4, is_floating_type = True,
     to_double = (\<lambda>v. v), to_integer = floor\<rparr>"

definition DoubleType :: "double ArrowType" where
  "DoubleType = \<lparr>sizeof_ctype = 8, is_floating_type = True,
     to_double = (\<lambda>v. v), to_integer = floor\<rparr>"

definition array_length :: "'a Array \<Rightarrow> int" where
  "array_length a = int (length a)"

definition null_count :: "'a Array \<Rightarrow> int" where
  "null_count a = int (length (filter (\<lambda>x. x = None) a))"

text \<open>The values of the valid slots, in order: what \<^verbatim>\<open>VisitSetBitRunsVoid\<close> walks over.\<close>

fun valid_values :: "'a Array \<Rightarrow> 'a list" where
  "valid_values [] = []"
| "valid_values (None # a) = valid_values a"
| "valid_values (Some v # a) = v # valid_values a"

text \<open>
  Modelled from the spec: the slice view of a columnar array (\<^verbatim>\<open>Array::Slice\<close>, a
  collaborator whose code is not among the sources): the slots from
  \<open>offset\<close> on, at most \<open>len\<close> of them.
\<close>

definition Slice :: "'a Array \<Rightarrow> int \<Rightarrow> int \<Rightarrow> 'a Array" where
  "Slice a offset len = take (nat len) (drop (nat offset) a)"

text \<open>
  Modelled from the spec: \<^verbatim>\<open>SumArray\<close> (\<^verbatim>\<open>aggregate_internal.h\<close>, not among the sources),
  the sum over the valid slots of a function of the value, in the sum type.
\<close>

definition SumArray :: "('a \<Rightarrow> 'b::comm_monoid_add) \<Rightarrow> 'a Array \<Rightarrow> 'b" where
  "SumArray f a = sum_list (map f (valid_values a))"

section \<open>VarStdState\<close>

record VarStdState =
  count :: int
  mean :: double
  m2 :: double

definition fresh_state :: VarStdState where
  "fresh_state = \<lparr>count = 0, mean = 0, m2 = 0\<rparr>"

text \<open>
  Modelled from the spec: \<^verbatim>\<open>MergeVarStd\<close> (\<^verbatim>\<open>aggregate_var_std_internal.h\<close>, not among
  the sources), the parallel-combine formula
  \<open>n = n1 + n2\<close>, \<open>\<mu> = (n1 \<mu>1 + n2 \<mu>2) / n\<close>, \<open>m2 = m2_1 + m2_2 + (\<mu>1 - \<mu>2)\<^sup>2 n1 n2 / n\<close>.
  The caller passes the first state's count and mean and the second state's count, mean
  and m2 by value; the first state's m2 is what the output location holds on entry.
\<close>

definition MergeVarStd :: "int \<Rightarrow> double \<Rightarrow> int \<Rightarrow> double \<Rightarrow> double \<Rightarrow> VarStdState \<Rightarrow> VarStdState" where
  "MergeVarStd count1 mean1 count2 mean2 m22 out =
     \<lparr>count = count1 + count2,
      mean = (real_of_int count1 * mean1 + real_of_int count2 * mean2) / real_of_int (count1 + count2),
      m2 = m2 out + m22 + (mean1 - mean2) * (mean1 - mean2)
             * (real_of_int count1 * real_of_int count2) / real_of_int (count1 + count2)\<rparr>"

definition MergeFrom :: "VarStdState \<Rightarrow> VarStdState \<Rightarrow> VarStdState" where
  "MergeFrom this state =
     (if count state = 0 then this
      else if count this = 0 then this\<lparr>count := count state, mean := mean state, m2 := m2 state\<rparr>
      else MergeVarStd (count this) (mean this) (count state) (mean state) (m2 state) this)"

text \<open>The two-pass algorithm: floating types and integer types wider than 4 bytes.\<close>

definition Consume_two_pass :: "'a ArrowType \<Rightarrow> 'a Array \<Rightarrow> VarStdState \<Rightarrow> VarStdState" where
  "Consume_two_pass T array this =
     (let cnt = array_length array - null_count array in
      if cnt = 0 then this
      else
        let sum = (if is_floating_type T then SumArray (to_double T) array
                   else real_of_int (SumArray (to_integer T) array));
            mean' = sum / real_of_int cnt;
            m2' = SumArray (\<lambda>value. let v = to_double T value in (v - mean') * (v - mean')) array
        in this\<lparr>count := cnt, mean := mean', m2 := m2'\<rparr>)"

text \<open>
  Modelled from the spec: \<^verbatim>\<open>IntegerVarStd\<close> (\<^verbatim>\<open>aggregate_var_std_internal.h\<close>, not among
  the sources), the textbook one-pass algorithm with integer arithmetic: a count, the sum of
  the values and the sum of their squares, from which \<open>mean = sum / count\<close> and
  \<open>m2 = square_sum - sum\<^sup>2 / count\<close>. The accumulators hold the mathematical values; whether
  they fit a machine integer is a separate predicate below.
\<close>

datatype IntegerVarStd = IntegerVarStd (ivs_count: int) (ivs_sum: int) (ivs_square_sum: int)

definition ConsumeOne :: "'a ArrowType \<Rightarrow> IntegerVarStd \<Rightarrow> 'a \<Rightarrow> IntegerVarStd" where
  "ConsumeOne T acc v =
     IntegerVarStd (ivs_count acc + 1) (ivs_sum acc + to_integer T v)
                   (ivs_square_sum acc + to_integer T v * to_integer T v)"

definition ivs_mean :: "IntegerVarStd \<Rightarrow> double" where
  "ivs_mean acc = real_of_int (ivs_sum acc) / real_of_int (ivs_count acc)"

definition ivs_m2 :: "IntegerVarStd \<Rightarrow> double" where
  "ivs_m2 acc = real_of_int (ivs_square_sum acc)
                 - real_of_int (ivs_sum acc * ivs_sum acc) / real_of_int (ivs_count acc)"

definition max_length :: "'a ArrowType \<Rightarrow> int" where
  "max_length T = 2 ^ (63 - sizeof_ctype T * 8)"

text \<open>The statistics of one slice, as the body of the loop computes them.\<close>

definition slice_var_std :: "'a ArrowType \<Rightarrow> 'a Array \<Rightarrow> IntegerVarStd" where
  "slice_var_std T slc = foldl (ConsumeOne T) (IntegerVarStd 0 0 0) (valid_values slc)"

definition slice_state :: "'a ArrowType \<Rightarrow> 'a Array \<Rightarrow> VarStdState" where
  "slice_state T slc =
     (let var_std = slice_var_std T slc
      in \<lparr>count = ivs_count var_std, mean = ivs_mean var_std, m2 = ivs_m2 var_std\<rparr>)"

text \<open>
  The \<^verbatim>\<open>while (valid_count > 0)\<close> loop of the one-pass algorithm, with its two variables
  \<^verbatim>\<open>start_index\<close> and \<^verbatim>\<open>valid_count\<close>. Not returning is the value \<open>None\<close>.
\<close>

partial_function (option) one_pass_loop ::
  "'a ArrowType \<Rightarrow> 'a Array \<Rightarrow> int \<Rightarrow> int \<Rightarrow> VarStdState \<Rightarrow> VarStdState option" where
  "one_pass_loop T array start_index valid_count this =
     (if valid_count > 0 then
        (let slc = Slice array start_index (max_length T);
             cnt = array_length slc - null_count slc
         in one_pass_loop T array (start_index + max_length T) (valid_count - cnt)
              (if cnt > 0 then MergeFrom this (slice_state T slc) else this))
      else Some this)"

declare one_pass_loop.simps [code]

definition Consume_one_pass :: "'a ArrowType \<Rightarrow> 'a Array \<Rightarrow> VarStdState \<Rightarrow> VarStdState option" where
  "Consume_one_pass T array this =
     one_pass_loop T array 0 (array_length array - null_count array) this"

text \<open>
  Overload resolution between the two array algorithms: two-pass when the type is floating
  or wider than 4 bytes, one-pass for the integer types of at most 4 bytes.
\<close>

definition Consume_array :: "'a ArrowType \<Rightarrow> 'a Array \<Rightarrow> VarStdState \<Rightarrow> VarStdState option" where
  "Consume_array T array this =
     (if is_floating_type T \<or> sizeof_ctype T > 4 then Some (Consume_two_pass T array this)
      else Consume_one_pass T array this)"

definition Consume_scalar :: "'a ArrowType \<Rightarrow> 'a Scalar \<Rightarrow> int \<Rightarrow> VarStdState \<Rightarrow> VarStdState" where
  "Consume_scalar T scalar cnt this =
     (let this = this\<lparr>m2 := 0\<rparr> in
      if is_valid scalar then this\<lparr>count := cnt, mean := to_double T (scalar_value scalar)\<rparr>
      else this\<lparr>count := 0, mean := 0\<rparr>)"

section \<open>VarStdImpl\<close>

datatype VarOrStd = Var | Std

record VarianceOptions =
  ddof :: int

datatype DataType =
  UInt8 | Int8 | UInt16 | Int16 | UInt32 | Int32 | UInt64 | Int64
  | HalfFloat | Float32 | Float64 | Boolean | Utf8

text \<open>A scalar result carries its type; \<open>None\<close> is the null scalar.\<close>

datatype ScalarResult =
  DoubleScalar "double option"
  | Int64Scalar "int option"
  | UInt64Scalar "nat option"
  | BooleanScalar "bool option"

fun scalar_type :: "ScalarResult \<Rightarrow> DataType" where
  "scalar_type (DoubleScalar _) = Float64"
| "scalar_type (Int64Scalar _) = Int64"
| "scalar_type (UInt64Scalar _) = UInt64"
| "scalar_type (BooleanScalar _) = Boolean"

record VarStdImpl =
  out_type :: DataType
  state :: VarStdState
  options :: VarianceOptions
  return_type :: VarOrStd

definition VarStdImpl_init :: "DataType \<Rightarrow> VarianceOptions \<Rightarrow> VarOrStd \<Rightarrow> VarStdImpl" where
  "VarStdImpl_init ot opts rt =
     \<lparr>out_type = ot, state = fresh_state, options = opts, return_type = rt\<rparr>"

text \<open>
  \<^verbatim>\<open>VarStdImpl::Consume\<close>, \<^verbatim>\<open>VarStdImpl::MergeFrom\<close> (here \<open>Merge\<close>, the name
  \<open>MergeFrom\<close> being taken by the state's) and \<^verbatim>\<open>VarStdImpl::Finalize\<close>. They return
  \<^verbatim>\<open>Status::OK()\<close> whenever they return, so only the new state or the output is kept;
  \<open>None\<close> is a \<^verbatim>\<open>Consume\<close> that does not return.
\<close>

definition Consume :: "'a ArrowType \<Rightarrow> VarStdImpl \<Rightarrow> 'a ExecBatch \<Rightarrow> VarStdImpl option" where
  "Consume T impl batch =
     (case column0 batch of
        ArrayDatum array \<Rightarrow>
          (case Consume_array T array (state impl) of
             None \<Rightarrow> None
           | Some st \<Rightarrow> Some (impl\<lparr>state := st\<rparr>))
      | ScalarDatum scalar \<Rightarrow>
          Some (impl\<lparr>state := Consume_scalar T scalar (batch_length batch) (state impl)\<rparr>))"

definition Merge :: "VarStdImpl \<Rightarrow> VarStdImpl \<Rightarrow> VarStdImpl" where
  "Merge impl src = impl\<lparr>state := MergeFrom (state impl) (state src)\<rparr>"

definition Finalize :: "VarStdImpl \<Rightarrow> ScalarResult" where
  "Finalize impl =
     (if count (state impl) \<le> ddof (options impl) then DoubleScalar None
      else
        let var = m2 (state impl) / real_of_int (count (state impl) - ddof (options impl))
        in DoubleScalar (Some (if return_type impl = Var then var else sqrt var)))"

section \<open>Kernel registration\<close>

datatype StatusCode = OK | Invalid | IOError | NotImplemented | TypeError

datatype Status = Status (code: StatusCode) (message: string)

fun is_number_type :: "DataType \<Rightarrow> bool" where
  "is_number_type Boolean = False"
| "is_number_type Utf8 = False"
| "is_number_type _ = True"

text \<open>
  \<^verbatim>\<open>VarStdInitState::Create\<close>: the visitor refuses half-floats and every type that is not
  a number type, and builds a \<^verbatim>\<open>VarStdImpl\<close> for the others.
\<close>

definition Create :: "DataType \<Rightarrow> DataType \<Rightarrow> VarianceOptions \<Rightarrow> VarOrStd \<Rightarrow> Status + VarStdImpl" where
  "Create in_type ot opts rt =
     (if in_type = HalfFloat then Inl (Status NotImplemented ''No variance/stddev implemented'')
      else if is_number_type in_type then Inr (VarStdImpl_init ot opts rt)
      else Inl (Status NotImplemented ''No variance/stddev implemented''))"

record KernelSignature =
  in_types :: "DataType list"
  sig_out_type :: DataType

datatype KernelInit = StddevInit | VarianceInit

record ScalarAggregateKernel =
  signature :: KernelSignature
  init :: KernelInit

record ScalarAggregateFunction =
  name :: string
  kernels :: "ScalarAggregateKernel list"

definition KernelSignature_Make :: "DataType list \<Rightarrow> DataType \<Rightarrow> KernelSignature" where
  "KernelSignature_Make ins ot = \<lparr>in_types = ins, sig_out_type = ot\<rparr>"

text \<open>
  Modelled from the spec: \<^verbatim>\<open>AddAggKernel\<close> (\<^verbatim>\<open>aggregate_internal.h\<close>, not among the
  sources) adds one entry, keyed by the signature's input type, to the function's table.
\<close>

definition AddAggKernel :: "KernelSignature \<Rightarrow> KernelInit \<Rightarrow> ScalarAggregateFunction \<Rightarrow> ScalarAggregateFunction" where
  "AddAggKernel sig ini func = func\<lparr>kernels := kernels func @ [\<lparr>signature = sig, init = ini\<rparr>]\<rparr>"

fun AddVarStdKernels :: "KernelInit \<Rightarrow> DataType list \<Rightarrow> ScalarAggregateFunction \<Rightarrow> ScalarAggregateFunction" where
  "AddVarStdKernels ini [] func = func"
| "AddVarStdKernels ini (ty # types) func =
     AddVarStdKernels ini types (AddAggKernel (KernelSignature_Make [ty] Float64) ini func)"

text \<open>
  \<^verbatim>\<open>NumericTypes()\<close> is declared outside the sources at hand; the list of types is a parameter.
\<close>

definition AddStddevAggKernels :: "DataType list \<Rightarrow> ScalarAggregateFunction" where
  "AddStddevAggKernels numeric_types =
     AddVarStdKernels StddevInit numeric_types \<lparr>name = ''stddev'', kernels = []\<rparr>"

definition AddVarianceAggKernels :: "DataType list \<Rightarrow> ScalarAggregateFunction" where
  "AddVarianceAggKernels numeric_types =
     AddVarStdKernels VarianceInit numeric_types \<lparr>name = ''variance'', kernels = []\<rparr>"

text \<open>
  \<^verbatim>\<open>StddevInit\<close> and \<^verbatim>\<open>VarianceInit\<close>: the state is created for the input type with the
  output type of the kernel's signature.
\<close>

definition kernel_init :: "ScalarAggregateKernel \<Rightarrow> DataType \<Rightarrow> VarianceOptions \<Rightarrow> Status + VarStdImpl" where
  "kernel_init k in_type opts =
     Create in_type (sig_out_type (signature k)) opts
       (case init k of StddevInit \<Rightarrow> Std | VarianceInit \<Rightarrow> Var)"

section \<open>ExecPlan\<close>

text \<open>
  Modelled from the spec: the plan and its nodes (\<^verbatim>\<open>exec_plan.cc\<close> is not among the
  sources; its tests are). Nodes live in the plan's node vector and are named by their
  index there; \<open>inputs\<close> lists the producers of a node. A node's start callback returns
  a status; the plan logs the nodes whose start and stop callbacks it invokes, as the
  \<^verbatim>\<open>StartStopTracker\<close> of the tests does.
\<close>

record ExecNode =
  label :: string
  inputs :: "nat list"
  num_outputs :: nat
  start_producing :: Status

datatype Lifecycle = Built | Started | Stopped

record ExecPlan =
  nodes :: "ExecNode list"
  lifecycle :: Lifecycle
  started :: "nat list"
  stopped :: "nat list"

text \<open>Modelled from the spec: \<^verbatim>\<open>ExecPlan::Make\<close> produces an empty plan.\<close>

definition Make :: ExecPlan where
  "Make = \<lparr>nodes = [], lifecycle = Built, started = [], stopped = []\<rparr>"

text \<open>
  Modelled from the spec: \<^verbatim>\<open>AddNode\<close> attaches a node to the plan; its inputs are nodes
  attached before.
\<close>

definition AddNode :: "ExecPlan \<Rightarrow> ExecNode \<Rightarrow> ExecPlan" where
  "AddNode plan node = plan\<lparr>nodes := nodes plan @ [node]\<rparr>"

text \<open>The pairs \<open>(u, v)\<close> where \<open>v\<close> is a consumer of \<open>u\<close>.\<close>

definition consumer_pairs :: "ExecNode list \<Rightarrow> (nat \<times> nat) list" where
  "consumer_pairs ns = concat (map (\<lambda>v. map (\<lambda>u. (u, v)) (inputs (ns ! v))) [0..<length ns])"

text \<open>The position of the first occurrence, the length of the list when there is none.\<close>

fun index_of :: "'a list \<Rightarrow> 'a \<Rightarrow> nat" where
  "index_of [] x = 0"
| "index_of (y # ys) x = (if y = x then 0 else Suc (index_of ys x))"

text \<open>
  Modelled from the spec: a topological order of the plan lists every node once, each
  producer before its consumers. The tie-break is unspecified: any such order may be the
  one the plan schedules by.
\<close>

definition is_topological :: "ExecNode list \<Rightarrow> nat list \<Rightarrow> bool" where
  "is_topological ns ord \<longleftrightarrow>
     distinct ord \<and> set ord = {0..<length ns}
     \<and> list_all (\<lambda>(u, v). index_of ord u < index_of ord v) (consumer_pairs ns)"

text \<open>
  Modelled from the spec: the start callbacks are invoked in the given order; at the first
  error, every node that started before is stopped, the latest started first, and the
  error is returned. The result is the status, the nodes whose start callback ran and the
  nodes whose stop callback ran. \<open>succeeded\<close> holds the nodes started so far, the latest
  first.
\<close>

fun start_in_order :: "ExecNode list \<Rightarrow> nat list \<Rightarrow> nat list \<Rightarrow> Status \<times> nat list \<times> nat list" where
  "start_in_order ns [] succeeded = (Status OK [], [], [])"
| "start_in_order ns (i # rest) succeeded =
     (let st = start_producing (ns ! i) in
      if code st = OK then
        (case start_in_order ns rest (i # succeeded) of (r, begun, ended) \<Rightarrow> (r, i # begun, ended))
      else (st, [i], succeeded))"

text \<open>
  Modelled from the spec: \<^verbatim>\<open>ExecPlan::StartProducing\<close> takes the plan from Built to
  Started and starts the nodes in reverse topological order; a plan that was started before
  answers Invalid, "restarted". \<open>ord\<close> is the topological order the plan schedules by.
\<close>

definition StartProducing :: "ExecPlan \<Rightarrow> nat list \<Rightarrow> Status \<times> ExecPlan" where
  "StartProducing plan ord =
     (if lifecycle plan \<noteq> Built then (Status Invalid ''restarted'', plan)
      else
        (case start_in_order (nodes plan) (rev ord) [] of
           (r, begun, ended) \<Rightarrow>
             (r, plan\<lparr>lifecycle := Started, started := started plan @ begun,
                      stopped := stopped plan @ ended\<rparr>)))"

text \<open>
  Modelled from the spec: \<^verbatim>\<open>ExecPlan::StopProducing\<close> invokes the stop callback of each
  node in forward topological order.
\<close>

definition StopProducing :: "ExecPlan \<Rightarrow> nat list \<Rightarrow> ExecPlan" where
  "StopProducing plan ord = plan\<lparr>lifecycle := Stopped, stopped := stopped plan @ ord\<rparr>"

text \<open>
  Modelled from the spec: the topological order the plan computes from its edges, producers
  first. The spec leaves the tie-break open; here each step places the first node, in the
  order of attachment, that is not placed yet and whose inputs are all placed. The loop
  makes one step per node and stops early when no node can be placed: the nodes left are
  on a cycle or depend on one (or name an input that is not in the plan).
\<close>

fun topo_loop :: "nat \<Rightarrow> ExecNode list \<Rightarrow> nat list \<Rightarrow> nat list" where
  "topo_loop 0 ns placed = placed"
| "topo_loop (Suc n) ns placed =
     (case find (\<lambda>i. i \<notin> set placed \<and> list_all (\<lambda>u. u \<in> set placed) (inputs (ns ! i)))
             [0..<length ns] of
        None \<Rightarrow> placed
      | Some i \<Rightarrow> topo_loop n ns (placed @ [i]))"

definition TopoSort :: "ExecNode list \<Rightarrow> nat list" where
  "TopoSort ns = topo_loop (length ns) ns []"

text \<open>The number of outputs of node \<open>u\<close> that are bound to a consumer.\<close>

definition bound_outputs :: "ExecNode list \<Rightarrow> nat \<Rightarrow> nat" where
  "bound_outputs ns u = length (filter (\<lambda>(p, c). p = u) (consumer_pairs ns))"

text \<open>
  Modelled from the spec: \<^verbatim>\<open>ExecPlan::Validate\<close> answers Invalid when the plan has no node,
  when a node declares outputs that are not all bound to a consumer, and when the topology
  has a cycle, which is when the topological sort cannot place every node. (A source is a
  node without inputs, so the case of a source with inputs does not arise; schemas are not
  part of this model.) The spec fixes the code of the error, not its message.
\<close>

definition Validate :: "ExecPlan \<Rightarrow> Status" where
  "Validate plan =
     (if nodes plan = [] then Status Invalid ''ExecPlan has no node''
      else if list_ex (\<lambda>u. 0 < num_outputs (nodes plan ! u)
                            \<and> bound_outputs (nodes plan) u < num_outputs (nodes plan ! u))
                [0..<length (nodes plan)]
        then Status Invalid ''output not bound''
      else if length (TopoSort (nodes plan)) < length (nodes plan)
        then Status Invalid ''cycle in ExecPlan''
      else Status OK [])"



text \<open>The matcher of the tests: \<open>sub\<close> occurs in \<open>s\<close>.\<close>

definition HasSubstr :: "string \<Rightarrow> string \<Rightarrow> bool" where
  "HasSubstr sub s \<longleftrightarrow> list_ex (\<lambda>i. take (length sub) (drop i s) = sub) [0..<Suc (length s)]"

section \<open>The scenarios of the test suite\<close>

text \<open>
  \<^verbatim>\<open>MakeDummyNode\<close> with the tracker's callbacks, and the two plans of
  \<^verbatim>\<open>TEST(ExecPlan, DummyStartProducing)\<close> and \<^verbatim>\<open>TEST(ExecPlan, DummyStartProducingError)\<close>.
  The nodes are numbered in the order they are added: source1 is 0, source2 is 1, process1
  is 2, process2 is 3, process3 is 4 and sink is 5.
\<close>

definition MakeDummyNode :: "ExecPlan \<Rightarrow> string \<Rightarrow> nat list \<Rightarrow> nat \<Rightarrow> Status \<Rightarrow> ExecPlan" where
  "MakeDummyNode plan l ins n st =
     AddNode plan \<lparr>label = l, inputs = ins, num_outputs = n, start_producing = st\<rparr>"

definition DummyStartProducing_plan :: ExecPlan where
  "DummyStartProducing_plan =
     foldl (\<lambda>plan (l, ins, n, st). MakeDummyNode plan l ins n st) Make
       [(''source1'', [], 2, Status OK []),
        (''source2'', [], 1, Status OK []),
        (''process1'', [0], 2, Status OK []),
        (''process2'', [2, 1], 1, Status OK []),
        (''process3'', [2, 0, 3], 1, Status OK []),
        (''sink'', [4], 0, Status OK [])]"

definition DummyStartProducingError_plan :: ExecPlan where
  "DummyStartProducingError_plan =
     foldl (\<lambda>plan (l, ins, n, st). MakeDummyNode plan l ins n st) Make
       [(''source1'', [], 2, Status NotImplemented ''zzz''),
        (''source2'', [], 1, Status OK []),
        (''process1'', [0], 2, Status IOError ''xxx''),
        (''process2'', [2, 1], 1, Status OK []),
        (''process3'', [2, 0, 3], 1, Status OK []),
        (''sink'', [4], 0, Status OK [])]"

definition labels :: "ExecNode list \<Rightarrow> nat list \<Rightarrow> string list" where
  "labels ns ids = map (\<lambda>i. label (ns ! i)) ids"

text \<open>
  A scalar aggregate node hands every batch it receives to the kernel state, in arrival
  order.
\<close>

fun Consume_all :: "'a ArrowType \<Rightarrow> VarStdImpl \<Rightarrow> 'a ExecBatch list \<Rightarrow> VarStdImpl option" where
  "Consume_all T impl [] = Some impl"
| "Consume_all T impl (b # bs) =
     (case Consume T impl b of None \<Rightarrow> None | Some impl' \<Rightarrow> Consume_all T impl' bs)"

definition array_batch :: "'a Array \<Rightarrow> 'a ExecBatch" where
  "array_batch a = \<lparr>column0 = ArrayDatum a, batch_length = array_length a\<rparr>"

definition scalar_batch :: "'a \<Rightarrow> int \<Rightarrow> 'a ExecBatch" where
  "scalar_batch v n = \<lparr>column0 = ScalarDatum (Scalar True v), batch_length = n\<rparr>"

definition variance_impl :: VarStdImpl where
  "variance_impl = VarStdImpl_init Float64 \<lparr>ddof = 0\<rparr> Var"

text \<open>The ranges of the machine integers an accumulator may be held in.\<close>

definition fits_int64 :: "int \<Rightarrow> bool" where
  "fits_int64 x \<longleftrightarrow> - (2 ^ 63) \<le> x \<and> x < 2 ^ 63"

definition fits_uint64 :: "int \<Rightarrow> bool" where
  "fits_uint64 x \<longleftrightarrow> 0 \<le> x \<and> x < 2 ^ 64"

definition fits_int128 :: "int \<Rightarrow> bool" where
  "fits_int128 x \<longleftrightarrow> - (2 ^ 127) \<le> x \<and> x < 2 ^ 127"

text \<open>
  The slices the one-pass loop takes: the same loop, with the same two variables, returning
  every \<^verbatim>\<open>array.Slice(start_index, max_length)\<close> it makes, in order.
\<close>

partial_function (option) one_pass_slices ::
  "'a ArrowType \<Rightarrow> 'a Array \<Rightarrow> int \<Rightarrow> int \<Rightarrow> 'a Array list option" where
  "one_pass_slices T array start_index valid_count =
     (if valid_count > 0 then
        (let slc = Slice array start_index (max_length T);
             cnt = array_length slc - null_count slc
         in Option.bind
              (one_pass_slices T array (start_index + max_length T) (valid_count - cnt))
              (\<lambda>rest. Some (slc # rest)))
      else Some [])"

declare one_pass_slices.simps [code]

text \<open>What one iteration of the loop does to the state with its slice.\<close>

definition merge_slice :: "'a ArrowType \<Rightarrow> VarStdState \<Rightarrow> 'a Array \<Rightarrow> VarStdState" where
  "merge_slice T this slc =
     (if array_length slc - null_count slc > 0 then MergeFrom this (slice_state T slc) else this)"

text \<open>
  What is checked of a slice: it has at most \<open>2 ^ (63 - 8 * width)\<close> slots, and after each
  number \<open>k\<close> of its valid values consumed by \<^verbatim>\<open>ConsumeOne\<close> (the intermediate values and
  the final ones) the sum fits a signed 64-bit integer and the sum of squares is below
  \<open>2 ^ (63 + 8 * width)\<close> and fits a signed 128-bit integer.
\<close>

definition slice_sums_fit :: "'a ArrowType \<Rightarrow> 'a Array \<Rightarrow> bool" where
  "slice_sums_fit T slc \<longleftrightarrow>
     array_length slc \<le> 2 ^ (63 - 8 * sizeof_ctype T)
     \<and> list_all
         (\<lambda>k. let acc = foldl (ConsumeOne T) (IntegerVarStd 0 0 0) (take k (valid_values slc))
              in fits_int64 (ivs_sum acc)
                 \<and> 0 \<le> ivs_square_sum acc
                 \<and> ivs_square_sum acc < 2 ^ (63 + 8 * sizeof_ctype T)
                 \<and> fits_int128 (ivs_square_sum acc))
         [0..<Suc (length (valid_values slc))]"

text \<open>
  What is checked of a run of the one-pass \<^verbatim>\<open>Consume\<close> on an array: the loop returns; the
  state it returns is the one reached by merging, in order, the slices it took; these slices
  cover every valid value of the array, in order; and each of them passes the check above.
\<close>

definition one_pass_within_bounds :: "'a ArrowType \<Rightarrow> 'a Array \<Rightarrow> VarStdState \<Rightarrow> bool" where
  "one_pass_within_bounds T array this \<longleftrightarrow>
     (case one_pass_slices T array 0 (array_length array - null_count array) of
        None \<Rightarrow> False
      | Some slcs \<Rightarrow>
          Consume_one_pass T array this = Some (foldl (merge_slice T) this slcs)
          \<and> valid_values (concat slcs) = valid_values array
          \<and> list_all (slice_sums_fit T) slcs)"

section \<open>Finalize\<close>

text \<open>
  Claim C2. Finalize produces the null double scalar when the count is at most ddof, and
  otherwise the double \<open>m2 / (count - ddof)\<close> for the variance kernel and its square root
  for the stddev kernel.
\<close>

theorem Finalize_null_or_quotient:
  "(count (state impl) \<le> ddof (options impl) \<longrightarrow> Finalize impl = DoubleScalar None)
   \<and> (ddof (options impl) < count (state impl) \<and> return_type impl = Var \<longrightarrow>
        Finalize impl = DoubleScalar (Some (m2 (state impl)
                          / real_of_int (count (state impl) - ddof (options impl)))))
   \<and> (ddof (options impl) < count (state impl) \<and> return_type impl = Std \<longrightarrow>
        Finalize impl = DoubleScalar (Some (sqrt (m2 (state impl)
                          / real_of_int (count (state impl) - ddof (options impl))))))"
  by (simp add: Finalize_def Let_def)

theorem Finalize_null_or_quotient_witness:
  "Finalize \<lparr>out_type = Float64, state = \<lparr>count = 1, mean = 5, m2 = 0\<rparr>,
             options = \<lparr>ddof = 1\<rparr>, return_type = Var\<rparr> = DoubleScalar None
   \<and> Finalize \<lparr>out_type = Float64, state = \<lparr>count = 6, mean = 11 / 2, m2 = 7 / 2\<rparr>,
               options = \<lparr>ddof = 0\<rparr>, return_type = Var\<rparr> = DoubleScalar (Some (7 / 12))
   \<and> Finalize \<lparr>out_type = Float64, state = \<lparr>count = 5, mean = 2, m2 = 16\<rparr>,
               options = \<lparr>ddof = 1\<rparr>, return_type = Std\<rparr> = DoubleScalar (Some 2)"
  using Finalize_null_or_quotient
          [of "\<lparr>out_type = Float64, state = \<lparr>count = 1, mean = 5, m2 = 0\<rparr>,
                options = \<lparr>ddof = 1\<rparr>, return_type = Var\<rparr>"]
        Finalize_null_or_quotient
          [of "\<lparr>out_type = Float64, state = \<lparr>count = 6, mean = 11 / 2, m2 = 7 / 2\<rparr>,
                options = \<lparr>ddof = 0\<rparr>, return_type = Var\<rparr>"]
        Finalize_null_or_quotient
          [of "\<lparr>out_type = Float64, state = \<lparr>count = 5, mean = 2, m2 = 16\<rparr>,
                options = \<lparr>ddof = 1\<rparr>, return_type = Std\<rparr>"]
  by simp

section \<open>Arrays without a valid slot\<close>

text \<open>
  Claim C9. Consuming an array whose valid count is zero returns and leaves count, mean and
  m2 as they were, on the two-pass path and on the one-pass path, whatever the type.
\<close>

theorem Consume_no_valid_unchanged:
  assumes "array_length a - null_count a = 0"
  shows "Consume_two_pass T a st = st
         \<and> Consume_one_pass T a st = Some st
         \<and> Consume_array T a st = Some st
         \<and> Consume T impl \<lparr>column0 = ArrayDatum a, batch_length = n\<rparr> = Some impl"
  using assms
  by (simp add: Consume_def Consume_array_def Consume_two_pass_def Consume_one_pass_def
        one_pass_loop.simps)

theorem Consume_no_valid_unchanged_witness:
  "array_length [None, None :: 32 word option] - null_count [None, None :: 32 word option] = 0
   \<and> Consume_one_pass Int32Type [None, None] \<lparr>count = 3, mean = 6, m2 = 2\<rparr>
       = Some \<lparr>count = 3, mean = 6, m2 = 2\<rparr>
   \<and> Consume_array Int32Type [None, None] \<lparr>count = 3, mean = 6, m2 = 2\<rparr>
       = Some \<lparr>count = 3, mean = 6, m2 = 2\<rparr>
   \<and> Consume_two_pass DoubleType [None, None] \<lparr>count = 3, mean = 6, m2 = 2\<rparr>
       = \<lparr>count = 3, mean = 6, m2 = 2\<rparr>"
proof -
  have h32: "array_length [None, None :: 32 word option]
               - null_count [None, None :: 32 word option] = 0"
    by (simp add: array_length_def null_count_def)
  have hd: "array_length [None, None :: double option]
              - null_count [None, None :: double option] = 0"
    by (simp add: array_length_def null_count_def)
  show ?thesis
    using h32 Consume_no_valid_unchanged [OF h32, of Int32Type "\<lparr>count = 3, mean = 6, m2 = 2\<rparr>"]
      Consume_no_valid_unchanged [OF hd, of DoubleType "\<lparr>count = 3, mean = 6, m2 = 2\<rparr>"]
    by simp
qed

section \<open>Output type\<close>

lemma kernels_AddVarStdKernels:
  "kernels (AddVarStdKernels ini types func) =
     kernels func @ map (\<lambda>ty. \<lparr>signature = KernelSignature_Make [ty] Float64, init = ini\<rparr>) types"
  by (induction types arbitrary: func) (simp_all add: AddAggKernel_def)

text \<open>
  Claim C10. Every kernel registered for variance and for stddev, whatever the list of
  numeric input types, declares the output type float64, the state its init builds carries
  that output type, and Finalize produces a double scalar, null or valid.
\<close>

theorem var_std_output_is_float64:
  "(\<forall>k \<in> set (kernels (AddVarianceAggKernels numeric_types))
            \<union> set (kernels (AddStddevAggKernels numeric_types)).
       sig_out_type (signature k) = Float64
       \<and> (\<forall>in_type opts impl'. kernel_init k in_type opts = Inr impl' \<longrightarrow> out_type impl' = Float64))
   \<and> (\<exists>d. Finalize impl = DoubleScalar d)
   \<and> scalar_type (Finalize impl) = Float64"
  by (auto simp: AddVarianceAggKernels_def AddStddevAggKernels_def kernels_AddVarStdKernels
        KernelSignature_Make_def kernel_init_def Create_def VarStdImpl_init_def Finalize_def Let_def
        split: if_splits)

theorem var_std_output_is_float64_witness:
  "map (\<lambda>k. sig_out_type (signature k))
       (kernels (AddVarianceAggKernels
          [UInt8, Int8, UInt16, Int16, UInt32, Int32, UInt64, Int64, Float32, Float64]))
     = replicate 10 Float64
   \<and> map (\<lambda>k. in_types (signature k))
       (kernels (AddStddevAggKernels
          [UInt8, Int8, UInt16, Int16, UInt32, Int32, UInt64, Int64, Float32, Float64]))
     = [[UInt8], [Int8], [UInt16], [Int16], [UInt32], [Int32], [UInt64], [Int64], [Float32], [Float64]]
   \<and> scalar_type (Finalize \<lparr>out_type = Float64, state = \<lparr>count = 6, mean = 11 / 2, m2 = 7 / 2\<rparr>,
               options = \<lparr>ddof = 0\<rparr>, return_type = Var\<rparr>) = Float64"
  using var_std_output_is_float64
     [of "[UInt8, Int8, UInt16, Int16, UInt32, Int32, UInt64, Int64, Float32, Float64]"
         "\<lparr>out_type = Float64, state = \<lparr>count = 6, mean = 11 / 2, m2 = 7 / 2\<rparr>,
               options = \<lparr>ddof = 0\<rparr>, return_type = Var\<rparr>"]
  by (simp add: AddVarianceAggKernels_def AddStddevAggKernels_def AddAggKernel_def
        KernelSignature_Make_def eval_nat_numeral)

section \<open>Starting and stopping a plan\<close>

lemmas plan_simps =
  DummyStartProducing_plan_def DummyStartProducingError_plan_def MakeDummyNode_def AddNode_def
  Make_def


lemma start_in_order_first_error:
  "\<forall>i \<in> set pre. code (start_producing (ns ! i)) = OK \<Longrightarrow>
   code (start_producing (ns ! f)) \<noteq> OK \<Longrightarrow>
   start_in_order ns (pre @ f # post) acc = (start_producing (ns ! f), pre @ [f], rev pre @ acc)"
  by (induction pre arbitrary: acc) (simp_all add: Let_def)


lemma index_of_append:
  "index_of (xs @ ys) x = (if x \<in> set xs then index_of xs x else length xs + index_of ys x)"
  by (induction xs) auto



lemma consumer_pairs_iff:
  "(u, v) \<in> set (consumer_pairs ns) \<longleftrightarrow> v < length ns \<and> u \<in> set (inputs (ns ! v))"
  by (auto simp: consumer_pairs_def)

text \<open>
  In a plan built by \<^verbatim>\<open>AddNode\<close> the inputs of a node were attached before it, so the
  order of attachment is a topological order: there is always one to schedule by.
\<close>

lemma index_of_upt: "k < n \<Longrightarrow> index_of [0..<n] k = k"
  by (induction n) (auto simp: index_of_append less_Suc_eq)

lemma attachment_order_is_topological:
  assumes "\<forall>v < length ns. \<forall>u \<in> set (inputs (ns ! v)). u < v"
  shows "is_topological ns [0..<length ns]"
proof -
  have "index_of [0..<length ns] u < index_of [0..<length ns] v"
    if "v < length ns" "u \<in> set (inputs (ns ! v))" for u v
  proof -
    from assms that have "u < v" by blast
    with that(1) show ?thesis by (simp add: index_of_upt)
  qed
  then show ?thesis
    by (auto simp: is_topological_def list_all_iff consumer_pairs_iff)
qed






text \<open>
  In a plan whose nodes name only inputs attached before them, as every plan built through
  \<^verbatim>\<open>AddNode\<close> from node handles is, the sort places every node, in the order of attachment.
\<close>

lemma topo_loop_attachment_order:
  assumes wf: "\<forall>v < length ns. \<forall>u \<in> set (inputs (ns ! v)). u < v"
    and "j + k \<le> length ns"
  shows "topo_loop k ns [0..<j] = [0..<j + k]"
  using assms(2)
proof (induction k arbitrary: j)
  case 0
  then show ?case by simp
next
  case (Suc k)
  then have j: "j < length ns" by simp
  let ?ready = "\<lambda>i. i \<notin> set [0..<j] \<and> list_all (\<lambda>u. u \<in> set [0..<j]) (inputs (ns ! i))"
  have "?ready j" using wf j by (auto simp: list_all_iff)
  moreover have "\<not> ?ready m" if "m < j" for m using that by simp
  ultimately have "find ?ready [0..<length ns] = Some j"
    using j by (auto simp: find_Some_iff intro!: exI [of _ j])
  moreover have "topo_loop k ns [0..<Suc j] = [0..<Suc j + k]"
    using Suc.prems by (intro Suc.IH) simp
  ultimately show ?case by simp
qed

lemma TopoSort_attachment_order:
  assumes "\<forall>v < length ns. \<forall>u \<in> set (inputs (ns ! v)). u < v"
  shows "TopoSort ns = [0..<length ns]"
  using topo_loop_attachment_order [OF assms, of 0 "length ns"] by (simp add: TopoSort_def)




text \<open>
  The plans of \<^verbatim>\<open>TEST(ExecPlanConstruction, Empty)\<close>, \<^verbatim>\<open>SingleNode\<close> (an unbound
  output, then none) and \<^verbatim>\<open>MultipleNode\<close>, and a plan of two nodes that feed each other.
\<close>

lemma Validate_rejects:
  "code (Validate Make) = Invalid"
  "code (Validate (MakeDummyNode Make ''dummy'' [] 1 (Status OK []))) = Invalid"
  "Validate (MakeDummyNode (MakeDummyNode Make ''a'' [1] 1 (Status OK [])) ''b'' [0] 1 (Status OK []))
     = Status Invalid ''cycle in ExecPlan''"
  "Validate (MakeDummyNode Make ''dummy'' [] 0 (Status OK [])) = Status OK []"
  "Validate
     (foldl (\<lambda>plan (l, ins, n, st). MakeDummyNode plan l ins n st) Make
        [(''source1'', [], 2, Status OK []), (''source2'', [], 1, Status OK []),
         (''process1'', [0], 2, Status OK []), (''process1'', [0, 1], 1, Status OK []),
         (''process3'', [2, 3, 2], 1, Status OK []), (''sink'', [4], 0, Status OK [])])
     = Status OK []"
  by code_simp+

text \<open>
  Claim C4. When the start callbacks are invoked in the order \<open>pre @ f # post\<close>, those of
  \<open>pre\<close> succeed and that of \<open>f\<close> returns an error, the plan returns the error of \<open>f\<close>;
  the start callbacks that ran are those of \<open>pre\<close> and \<open>f\<close>; the stop callbacks that ran
  are those of \<open>pre\<close>, in reverse, and neither \<open>f\<close> nor a node of \<open>post\<close> is stopped.
\<close>

theorem start_error_unwinds:
  assumes fresh: "lifecycle plan = Built" "started plan = []" "stopped plan = []"
    and ord: "distinct ord" "rev ord = pre @ f # post"
    and ok: "\<forall>i \<in> set pre. code (start_producing (nodes plan ! i)) = OK"
    and err: "code (start_producing (nodes plan ! f)) \<noteq> OK"
  shows "fst (StartProducing plan ord) = start_producing (nodes plan ! f)
         \<and> started (snd (StartProducing plan ord)) = pre @ [f]
         \<and> stopped (snd (StartProducing plan ord)) = rev pre
         \<and> f \<notin> set (stopped (snd (StartProducing plan ord)))
         \<and> set post \<inter> set (stopped (snd (StartProducing plan ord))) = {}"
proof -
  have run: "start_in_order (nodes plan) (rev ord) []
               = (start_producing (nodes plan ! f), pre @ [f], rev pre)"
    using start_in_order_first_error [OF ok err, of post "[]"] ord(2) by simp
  from ord have "distinct (pre @ f # post)"
    by (metis distinct_rev)
  then have "f \<notin> set pre" "set post \<inter> set pre = {}" by auto
  with run fresh show ?thesis
    by (simp add: StartProducing_def)
qed

theorem start_error_unwinds_witness:
  "fst (StartProducing DummyStartProducingError_plan [0, 1, 2, 3, 4, 5]) = Status IOError ''xxx''
   \<and> labels (nodes DummyStartProducingError_plan)
        (started (snd (StartProducing DummyStartProducingError_plan [0, 1, 2, 3, 4, 5])))
       = [''sink'', ''process3'', ''process2'', ''process1'']
   \<and> labels (nodes DummyStartProducingError_plan)
        (stopped (snd (StartProducing DummyStartProducingError_plan [0, 1, 2, 3, 4, 5])))
       = [''process2'', ''process3'', ''sink'']"
proof -
  have fresh: "lifecycle DummyStartProducingError_plan = Built"
    "started DummyStartProducingError_plan = []"
    "stopped DummyStartProducingError_plan = []"
    by (simp_all add: plan_simps)
  have ord: "distinct [0, 1, 2, 3, 4, 5 :: nat]" "rev [0, 1, 2, 3, 4, 5 :: nat] = [5, 4, 3] @ 2 # [1, 0]"
    by simp_all
  have ok: "\<forall>i \<in> set [5, 4, 3 :: nat].
              code (start_producing (nodes DummyStartProducingError_plan ! i)) = OK"
    by (simp add: plan_simps)
  have err: "code (start_producing (nodes DummyStartProducingError_plan ! 2)) \<noteq> OK"
    by (simp add: plan_simps)
  from start_error_unwinds [OF fresh ord ok err] show ?thesis
    by (simp add: labels_def plan_simps)
qed

lemma lifecycle_StartProducing: "lifecycle (snd (StartProducing plan ord)) \<noteq> Built"
  by (simp add: StartProducing_def split: prod.splits)

lemma lifecycle_StopProducing_list:
  "lifecycle plan \<noteq> Built \<Longrightarrow> lifecycle (foldl StopProducing plan stops) \<noteq> Built"
  by (induction stops arbitrary: plan) (simp_all add: StopProducing_def)

lemma HasSubstr_restarted: "HasSubstr ''restarted'' ''restarted''"
  by (simp add: HasSubstr_def)

text \<open>
  Claim C7. After a first \<^verbatim>\<open>StartProducing\<close>, whatever its outcome, and any number of
  \<^verbatim>\<open>StopProducing\<close> calls (none when the plan was left to run), a further
  \<^verbatim>\<open>StartProducing\<close> returns Invalid with a message containing "restarted" and invokes no
  callback.
\<close>

theorem restart_is_invalid:
  "code (fst (StartProducing (foldl StopProducing (snd (StartProducing plan ord)) stops) ord')) = Invalid
   \<and> HasSubstr ''restarted''
        (message (fst (StartProducing (foldl StopProducing (snd (StartProducing plan ord)) stops) ord')))
   \<and> snd (StartProducing (foldl StopProducing (snd (StartProducing plan ord)) stops) ord')
       = foldl StopProducing (snd (StartProducing plan ord)) stops"
proof -
  have "lifecycle (foldl StopProducing (snd (StartProducing plan ord)) stops) \<noteq> Built"
    by (rule lifecycle_StopProducing_list) (rule lifecycle_StartProducing)
  then show ?thesis
    by (simp add: StartProducing_def HasSubstr_restarted)
qed

theorem restart_is_invalid_witness:
  "fst (StartProducing
          (foldl StopProducing (snd (StartProducing DummyStartProducing_plan [0, 1, 2, 3, 4, 5]))
             [[0, 1, 2, 3, 4, 5]]) [0, 1, 2, 3, 4, 5]) = Status Invalid ''restarted''
   \<and> fst (StartProducing (snd (StartProducing DummyStartProducing_plan [0, 1, 2, 3, 4, 5]))
             [0, 1, 2, 3, 4, 5]) = Status Invalid ''restarted''"
  using restart_is_invalid [of DummyStartProducing_plan "[0, 1, 2, 3, 4, 5]"
          "[[0, 1, 2, 3, 4, 5]]" "[0, 1, 2, 3, 4, 5]"]
    restart_is_invalid [of DummyStartProducing_plan "[0, 1, 2, 3, 4, 5]"
          "[]" "[0, 1, 2, 3, 4, 5]"]
    lifecycle_StartProducing [of DummyStartProducing_plan "[0, 1, 2, 3, 4, 5]"]
  by (simp add: StartProducing_def StopProducing_def split: prod.splits)

section \<open>The one-pass loop\<close>

lemma valid_count_eq: "array_length a - null_count a = int (length (valid_values a))"
  by (induction a rule: valid_values.induct) (simp_all add: array_length_def null_count_def)

lemma valid_values_append: "valid_values (a @ b) = valid_values a @ valid_values b"
  by (induction a rule: valid_values.induct) simp_all

lemma valid_count_take_drop:
  "(array_length (take n a) - null_count (take n a)) + (array_length (drop n a) - null_count (drop n a))
     = array_length a - null_count a"
proof -
  have "valid_values (take n a @ drop n a) = valid_values (take n a) @ valid_values (drop n a)"
    by (rule valid_values_append)
  then have "length (valid_values a) = length (valid_values (take n a)) + length (valid_values (drop n a))"
    by simp
  then show ?thesis by (simp add: valid_count_eq)
qed

lemma max_length_pos: "0 < max_length T"
  by (simp add: max_length_def)

lemma one_pass_loop_returns:
  assumes "0 \<le> start_index"
    and "valid_count = array_length (drop (nat start_index) a) - null_count (drop (nat start_index) a)"
  shows "\<exists>st'. one_pass_loop T a start_index valid_count st = Some st'"
  using assms
proof (induction "length a - nat start_index" arbitrary: start_index valid_count st rule: less_induct)
  case less
  show ?case
  proof (cases "0 < valid_count")
    case False
    then show ?thesis by (simp add: one_pass_loop.simps)
  next
    case True
    let ?L = "max_length T"
    let ?slc = "Slice a start_index ?L"
    let ?cnt = "array_length ?slc - null_count ?slc"
    have Lpos: "0 < ?L" by (rule max_length_pos)
    have "drop (nat start_index) a \<noteq> []"
      using True less.prems(2) by (auto simp: array_length_def null_count_def)
    then have lt: "nat start_index < length a" by simp
    have dec: "length a - nat (start_index + ?L) < length a - nat start_index"
      using lt Lpos less.prems(1) by linarith
    have dd: "drop (nat (start_index + ?L)) a = drop (nat ?L) (drop (nat start_index) a)"
      using Lpos less.prems(1) by (simp add: nat_add_distrib add.commute)
    have vc: "valid_count - ?cnt = array_length (drop (nat (start_index + ?L)) a)
                                    - null_count (drop (nat (start_index + ?L)) a)"
      using valid_count_take_drop [of "nat ?L" "drop (nat start_index) a"] less.prems(2)
      by (simp add: dd Slice_def)
    have nn: "0 \<le> start_index + ?L" using Lpos less.prems(1) by simp
    from less.hyps [OF dec nn vc]
    obtain st' where "one_pass_loop T a (start_index + ?L) (valid_count - ?cnt)
        (if 0 < ?cnt then MergeFrom st (slice_state T ?slc) else st) = Some st'"
      by blast
    then show ?thesis
      using True by (subst one_pass_loop.simps) (simp add: Let_def)
  qed
qed

lemma Consume_returns: "\<exists>impl'. Consume T impl batch = Some impl'"
proof (cases "column0 batch")
  case (ArrayDatum a)
  have "\<exists>st'. Consume_array T a (state impl) = Some st'"
    using one_pass_loop_returns [of 0 "array_length a - null_count a" a T "state impl"]
    by (simp add: Consume_array_def Consume_one_pass_def)
  with ArrayDatum show ?thesis by (auto simp: Consume_def)
next
  case (ScalarDatum s)
  then show ?thesis by (simp add: Consume_def)
qed

lemma count_MergeFrom:
  "0 \<le> count a \<Longrightarrow> 0 \<le> count b \<Longrightarrow> count (MergeFrom a b) = count a + count b"
  by (simp add: MergeFrom_def MergeVarStd_def)

lemma foldl_ConsumeOne:
  "foldl (ConsumeOne T) (IntegerVarStd c s q) vs =
     IntegerVarStd (c + int (length vs)) (s + sum_list (map (to_integer T) vs))
       (q + sum_list (map (\<lambda>v. to_integer T v * to_integer T v) vs))"
  by (induction vs arbitrary: c s q) (simp_all add: ConsumeOne_def)

lemma sum_list_bounds:
  fixes f :: "'a \<Rightarrow> int"
  assumes "\<forall>x \<in> set xs. lo \<le> f x \<and> f x \<le> hi"
  shows "int (length xs) * lo \<le> sum_list (map f xs) \<and> sum_list (map f xs) \<le> int (length xs) * hi"
  using assms by (induction xs) (auto simp: algebra_simps)

lemma length_valid_values: "length (valid_values a) \<le> length a"
  by (induction a rule: valid_values.induct) simp_all

lemma square_le:
  fixes v :: int
  assumes "- B \<le> v" "v \<le> B"
  shows "0 \<le> v * v \<and> v * v \<le> B * B"
proof -
  have "\<bar>v\<bar> \<le> B" using assms by simp
  then have "\<bar>v\<bar> * \<bar>v\<bar> \<le> B * B"
    by (intro mult_mono) simp_all
  then show ?thesis by (simp add: abs_mult_self_eq)
qed

text \<open>
  The loop and the slices it takes: from a start index whose remaining valid count is
  \<open>valid_count\<close>, the loop returns the state reached by merging its slices in order, the
  slices are consecutive pieces of the rest of the array that hold all its valid values,
  and none is longer than \<open>max_length\<close>.
\<close>

lemma one_pass_loop_slices:
  assumes "0 \<le> start_index"
    and "valid_count = array_length (drop (nat start_index) a) - null_count (drop (nat start_index) a)"
  shows "\<exists>slcs. one_pass_slices T a start_index valid_count = Some slcs
           \<and> one_pass_loop T a start_index valid_count st = Some (foldl (merge_slice T) st slcs)
           \<and> valid_values (concat slcs) = valid_values (drop (nat start_index) a)
           \<and> (\<forall>slc \<in> set slcs. array_length slc \<le> max_length T)"
  using assms
proof (induction "length a - nat start_index" arbitrary: start_index valid_count st rule: less_induct)
  case less
  show ?case
  proof (cases "0 < valid_count")
    case False
    with less.prems(2) have "length (valid_values (drop (nat start_index) a)) = 0"
      by (simp add: valid_count_eq)
    with False show ?thesis
      by (simp add: one_pass_loop.simps one_pass_slices.simps)
  next
    case True
    let ?L = "max_length T"
    let ?slc = "Slice a start_index ?L"
    let ?cnt = "array_length ?slc - null_count ?slc"
    have Lpos: "0 < ?L" by (rule max_length_pos)
    have "drop (nat start_index) a \<noteq> []"
      using True less.prems(2) by (auto simp: array_length_def null_count_def)
    then have lt: "nat start_index < length a" by simp
    have dec: "length a - nat (start_index + ?L) < length a - nat start_index"
      using lt Lpos less.prems(1) by linarith
    have dd: "drop (nat (start_index + ?L)) a = drop (nat ?L) (drop (nat start_index) a)"
      using Lpos less.prems(1) by (simp add: nat_add_distrib add.commute)
    have vc: "valid_count - ?cnt = array_length (drop (nat (start_index + ?L)) a)
                                    - null_count (drop (nat (start_index + ?L)) a)"
      using valid_count_take_drop [of "nat ?L" "drop (nat start_index) a"] less.prems(2)
      by (simp add: dd Slice_def)
    have nn: "0 \<le> start_index + ?L" using Lpos less.prems(1) by simp
    from less.hyps [OF dec nn vc, of "merge_slice T st ?slc"]
    obtain rest where
      r1: "one_pass_slices T a (start_index + ?L) (valid_count - ?cnt) = Some rest"
      and r2: "one_pass_loop T a (start_index + ?L) (valid_count - ?cnt) (merge_slice T st ?slc)
                 = Some (foldl (merge_slice T) (merge_slice T st ?slc) rest)"
      and r3: "valid_values (concat rest) = valid_values (drop (nat (start_index + ?L)) a)"
      and r4: "\<forall>slc \<in> set rest. array_length slc \<le> ?L"
      by blast
    have s1: "one_pass_slices T a start_index valid_count = Some (?slc # rest)"
      using True r1 by (subst one_pass_slices.simps) (simp add: Let_def)
    have s2: "one_pass_loop T a start_index valid_count st
                = Some (foldl (merge_slice T) st (?slc # rest))"
      using True r2 by (subst one_pass_loop.simps) (simp add: Let_def merge_slice_def)
    have "valid_values (concat (?slc # rest)) = valid_values ?slc @ valid_values (concat rest)"
      by (simp add: valid_values_append)
    also have "\<dots> = valid_values (take (nat ?L) (drop (nat start_index) a))
                      @ valid_values (drop (nat ?L) (drop (nat start_index) a))"
      by (simp only: r3 dd Slice_def)
    also have "\<dots> = valid_values (take (nat ?L) (drop (nat start_index) a)
                                      @ drop (nat ?L) (drop (nat start_index) a))"
      by (simp only: valid_values_append)
    also have "\<dots> = valid_values (drop (nat start_index) a)"
      by (simp only: append_take_drop_id)
    finally have s3: "valid_values (concat (?slc # rest)) = valid_values (drop (nat start_index) a)" .
    have "array_length ?slc \<le> ?L"
      using Lpos by (simp add: Slice_def array_length_def)
    with r4 have s4: "\<forall>slc \<in> set (?slc # rest). array_length slc \<le> ?L" by simp
    from s1 s2 s3 s4 show ?thesis by blast
  qed
qed

lemma square_less:
  fixes v :: int
  assumes "- B < v" "v < B"
  shows "0 \<le> v * v \<and> v * v < B * B"
proof -
  have "\<bar>v\<bar> < B" using assms by simp
  then have "\<bar>v\<bar> * \<bar>v\<bar> < B * B"
    by (intro mult_strict_mono') simp_all
  then show ?thesis by (simp add: abs_mult_self_eq)
qed

lemma narrow_slice_bounds:
  assumes w: "sizeof_ctype T \<le> 4"
    and range: "\<forall>v. - (2 ^ (8 * sizeof_ctype T)) < to_integer T v
                    \<and> to_integer T v < 2 ^ (8 * sizeof_ctype T)"
    and len: "array_length slc \<le> max_length T"
  shows "slice_sums_fit T slc"
proof -
  define w where "w = sizeof_ctype T"
  define B :: int where "B = 2 ^ (8 * w)"
  define N :: int where "N = 2 ^ (63 - 8 * w)"
  have wle: "w \<le> 4" using w by (simp add: w_def)
  have ml: "max_length T = N" by (simp add: max_length_def N_def w_def mult.commute)
  have Npos: "0 < N" and Bpos: "0 < B" by (simp_all add: N_def B_def)
  have NB: "N * B = 2 ^ 63"
  proof -
    have "N * B = 2 ^ ((63 - 8 * w) + 8 * w)" by (simp add: N_def B_def power_add)
    also have "(63 - 8 * w) + 8 * w = 63" using wle by simp
    finally show ?thesis .
  qed
  have NBB: "N * (B * B) = 2 ^ (63 + 8 * w)"
    using NB by (simp add: mult.assoc [symmetric] power_add B_def)
  have len_slc: "array_length slc \<le> N" using len ml by simp
  have step: "fits_int64 (ivs_sum acc) \<and> 0 \<le> ivs_square_sum acc
              \<and> ivs_square_sum acc < 2 ^ (63 + 8 * w) \<and> fits_int128 (ivs_square_sum acc)"
    if acc: "acc = foldl (ConsumeOne T) (IntegerVarStd 0 0 0) (take k (valid_values slc))"
    for k acc
  proof -
    define vs where "vs = take k (valid_values slc)"
    define n where "n = int (length vs)"
    have "length vs \<le> length slc"
      using length_valid_values [of slc] by (simp add: vs_def)
    then have nN: "n \<le> N" using len_slc by (simp add: n_def array_length_def)
    have n0: "0 \<le> n" by (simp add: n_def)
    have r0: "- B < to_integer T v \<and> to_integer T v < B" for v
      using range by (simp add: B_def w_def)
    have r1: "\<forall>v \<in> set vs. - B \<le> to_integer T v \<and> to_integer T v \<le> B - 1"
    proof
      fix v assume "v \<in> set vs"
      from r0 [of v] show "- B \<le> to_integer T v \<and> to_integer T v \<le> B - 1" by simp
    qed
    from sum_list_bounds [OF r1]
    have s_lo: "n * (- B) \<le> sum_list (map (to_integer T) vs)"
      and s_hi: "sum_list (map (to_integer T) vs) \<le> n * (B - 1)"
      by (simp_all add: n_def)
    have nB: "n * B \<le> N * B" using nN Bpos by (simp add: mult_right_mono)
    have lo: "- (2 ^ 63) \<le> sum_list (map (to_integer T) vs)"
      using s_lo nB NB by simp
    have hi: "sum_list (map (to_integer T) vs) < 2 ^ 63"
    proof (cases "n = 0")
      case True
      then show ?thesis using s_hi by simp
    next
      case False
      then have "0 < n" using n0 by simp
      then have "n * (B - 1) < n * B" by (simp add: algebra_simps)
      then show ?thesis using s_hi nB NB by simp
    qed
    have r2: "\<forall>v \<in> set vs. 0 \<le> to_integer T v * to_integer T v
                            \<and> to_integer T v * to_integer T v \<le> B * B - 1"
    proof
      fix v assume "v \<in> set vs"
      from r0 [of v] have "- B < to_integer T v" "to_integer T v < B" by simp_all
      then have "0 \<le> to_integer T v * to_integer T v \<and> to_integer T v * to_integer T v < B * B"
        by (rule square_less)
      then show "0 \<le> to_integer T v * to_integer T v
                 \<and> to_integer T v * to_integer T v \<le> B * B - 1" by simp
    qed
    from sum_list_bounds [OF r2]
    have q_lo: "0 \<le> sum_list (map (\<lambda>v. to_integer T v * to_integer T v) vs)"
      and q_hi: "sum_list (map (\<lambda>v. to_integer T v * to_integer T v) vs) \<le> n * (B * B - 1)"
      by (simp_all add: n_def)
    have BBpos: "0 < B * B" using Bpos by simp
    have nBB: "n * (B * B) \<le> N * (B * B)" using nN BBpos by (simp add: mult_right_mono)
    have q_lt: "sum_list (map (\<lambda>v. to_integer T v * to_integer T v) vs) < 2 ^ (63 + 8 * w)"
    proof (cases "n = 0")
      case True
      have "(0::int) < 2 ^ (63 + 8 * w)" by simp
      moreover from True q_hi
      have "sum_list (map (\<lambda>v. to_integer T v * to_integer T v) vs) \<le> 0" by simp
      ultimately show ?thesis by linarith
    next
      case False
      then have "0 < n" using n0 by simp
      then have "n * (B * B - 1) < n * (B * B)" by (simp add: algebra_simps)
      then show ?thesis using q_hi nBB NBB by simp
    qed
    have "(2::int) ^ (63 + 8 * w) \<le> 2 ^ 127"
      using wle by (intro power_increasing) simp_all
    with q_lt have q_128: "sum_list (map (\<lambda>v. to_integer T v * to_integer T v) vs) < 2 ^ 127"
      by simp
    show ?thesis
      unfolding acc vs_def [symmetric]
      using lo hi q_lo q_lt q_128
      by (simp add: foldl_ConsumeOne fits_int64_def fits_int128_def)
  qed
  show ?thesis
    unfolding slice_sums_fit_def list_all_iff Let_def
    using len_slc step by (simp add: N_def w_def)
qed

lemma narrow_one_pass_within_bounds:
  assumes w: "sizeof_ctype T \<le> 4"
    and range: "\<forall>v. - (2 ^ (8 * sizeof_ctype T)) < to_integer T v
                    \<and> to_integer T v < 2 ^ (8 * sizeof_ctype T)"
  shows "one_pass_within_bounds T a st"
proof -
  from one_pass_loop_slices [of 0 "array_length a - null_count a" a T st]
  obtain slcs where
    s1: "one_pass_slices T a 0 (array_length a - null_count a) = Some slcs"
    and s2: "one_pass_loop T a 0 (array_length a - null_count a) st
               = Some (foldl (merge_slice T) st slcs)"
    and s3: "valid_values (concat slcs) = valid_values a"
    and s4: "\<forall>slc \<in> set slcs. array_length slc \<le> max_length T"
    by auto
  have "list_all (slice_sums_fit T) slcs"
    unfolding list_all_iff using s4 narrow_slice_bounds [OF w range] by blast
  with s1 s2 s3 show ?thesis
    by (simp add: one_pass_within_bounds_def Consume_one_pass_def)
qed

text \<open>
  Claim C6, as amended. For each of the integer types of at most 4 bytes, whatever the array
  and the state, the one-pass \<^verbatim>\<open>Consume\<close> returns, having processed the array in slices
  of at most \<open>2 ^ (63 - 8 * width)\<close> slots that cover all its valid values; within each
  slice, after any number of values, the sum of the values fits a signed 64-bit integer,
  and the sum of the squares is below \<open>2 ^ (63 + 8 * width)\<close> and fits a signed 128-bit
  integer.
\<close>

theorem one_pass_slices_sum_fits_int64:
  "(\<forall>a st. one_pass_within_bounds Int8Type a st) \<and> (\<forall>a st. one_pass_within_bounds UInt8Type a st)
   \<and> (\<forall>a st. one_pass_within_bounds Int16Type a st) \<and> (\<forall>a st. one_pass_within_bounds UInt16Type a st)
   \<and> (\<forall>a st. one_pass_within_bounds Int32Type a st) \<and> (\<forall>a st. one_pass_within_bounds UInt32Type a st)"
proof -
  have s8: "- (2 ^ 8) < sint v \<and> sint v < 2 ^ 8" for v :: "8 word"
    using sint_ge [of v] sint_lt [of v] by simp
  have u8: "- (2 ^ 8) < uint v \<and> uint v < 2 ^ 8" for v :: "8 word"
  proof -
    have "0 \<le> uint v" by simp
    moreover have "uint v < 2 ^ 8" using uint_lt2p [of v] by simp
    ultimately show ?thesis by linarith
  qed
  have s16: "- (2 ^ 16) < sint v \<and> sint v < 2 ^ 16" for v :: "16 word"
    using sint_ge [of v] sint_lt [of v] by simp
  have u16: "- (2 ^ 16) < uint v \<and> uint v < 2 ^ 16" for v :: "16 word"
  proof -
    have "0 \<le> uint v" by simp
    moreover have "uint v < 2 ^ 16" using uint_lt2p [of v] by simp
    ultimately show ?thesis by linarith
  qed
  have s32: "- (2 ^ 32) < sint v \<and> sint v < 2 ^ 32" for v :: "32 word"
    using sint_ge [of v] sint_lt [of v] by simp
  have u32: "- (2 ^ 32) < uint v \<and> uint v < 2 ^ 32" for v :: "32 word"
  proof -
    have "0 \<le> uint v" by simp
    moreover have "uint v < 2 ^ 32" using uint_lt2p [of v] by simp
    ultimately show ?thesis by linarith
  qed
  have "one_pass_within_bounds Int8Type a st" for a st
    by (rule narrow_one_pass_within_bounds) (use s8 in \<open>simp_all add: Int8Type_def\<close>)
  moreover have "one_pass_within_bounds UInt8Type a st" for a st
    by (rule narrow_one_pass_within_bounds) (use u8 in \<open>simp_all add: UInt8Type_def\<close>)
  moreover have "one_pass_within_bounds Int16Type a st" for a st
    by (rule narrow_one_pass_within_bounds) (use s16 in \<open>simp_all add: Int16Type_def\<close>)
  moreover have "one_pass_within_bounds UInt16Type a st" for a st
    by (rule narrow_one_pass_within_bounds) (use u16 in \<open>simp_all add: UInt16Type_def\<close>)
  moreover have "one_pass_within_bounds Int32Type a st" for a st
    by (rule narrow_one_pass_within_bounds) (use s32 in \<open>simp_all add: Int32Type_def\<close>)
  moreover have "one_pass_within_bounds UInt32Type a st" for a st
    by (rule narrow_one_pass_within_bounds) (use u32 in \<open>simp_all add: UInt32Type_def\<close>)
  ultimately show ?thesis by blast
qed

lemmas c6_simps = array_length_def null_count_def Int32Type_def UInt8Type_def max_length_def Slice_def
  slice_var_std_def ConsumeOne_def fits_int64_def fits_uint64_def one_pass_slices.simps Let_def

text \<open>
  Claim C6 as stated, with the sum of squares held in 64 bits, fails: four slots holding the
  least 32-bit value are the one slice the loop takes of that array, far below the bound of
  \<open>2 ^ 31\<close> slots; their sum fits 64 bits, but the sum of their squares is \<open>2 ^ 64\<close>,
  beyond every 64-bit integer, signed or unsigned.
\<close>

theorem square_sum_exceeds_64_bits:
  "one_pass_slices Int32Type
       [Some (- 2147483648), Some (- 2147483648), Some (- 2147483648), Some (- 2147483648)] 0 4
     = Some [[Some (- 2147483648), Some (- 2147483648), Some (- 2147483648), Some (- 2147483648)]]
   \<and> array_length [Some (- 2147483648 :: 32 word), Some (- 2147483648), Some (- 2147483648),
                   Some (- 2147483648)] \<le> 2 ^ (63 - 8 * sizeof_ctype Int32Type)
   \<and> fits_int64 (ivs_sum (slice_var_std Int32Type
         [Some (- 2147483648), Some (- 2147483648), Some (- 2147483648), Some (- 2147483648)]))
   \<and> ivs_square_sum (slice_var_std Int32Type
         [Some (- 2147483648), Some (- 2147483648), Some (- 2147483648), Some (- 2147483648)]) = 2 ^ 64
   \<and> \<not> fits_int64 (ivs_square_sum (slice_var_std Int32Type
         [Some (- 2147483648), Some (- 2147483648), Some (- 2147483648), Some (- 2147483648)]))
   \<and> \<not> fits_uint64 (ivs_square_sum (slice_var_std Int32Type
         [Some (- 2147483648), Some (- 2147483648), Some (- 2147483648), Some (- 2147483648)]))"
  by (simp add: c6_simps)

theorem one_pass_slices_sum_fits_int64_witness:
  "one_pass_slices Int32Type
       [Some (- 2147483648), Some (- 2147483648), Some (- 2147483648), Some (- 2147483648)] 0 4
     = Some [[Some (- 2147483648), Some (- 2147483648), Some (- 2147483648), Some (- 2147483648)]]
   \<and> slice_sums_fit Int32Type
       [Some (- 2147483648), Some (- 2147483648), Some (- 2147483648), Some (- 2147483648)]
   \<and> ivs_sum (slice_var_std Int32Type
       [Some (- 2147483648), Some (- 2147483648), Some (- 2147483648), Some (- 2147483648)])
       = - 8589934592
   \<and> one_pass_slices UInt8Type [Some 255, None, Some 255] 0 2 = Some [[Some 255, None, Some 255]]
   \<and> slice_sums_fit UInt8Type [Some 255, None, Some 255]"
proof -
  have a: "one_pass_slices Int32Type
       [Some (- 2147483648), Some (- 2147483648), Some (- 2147483648), Some (- 2147483648)] 0 4
     = Some [[Some (- 2147483648), Some (- 2147483648), Some (- 2147483648), Some (- 2147483648)]]"
    by (simp add: c6_simps)
  have b: "one_pass_slices UInt8Type [Some 255, None, Some 255] 0 2 = Some [[Some 255, None, Some 255]]"
    by (simp add: c6_simps)
  have c: "ivs_sum (slice_var_std Int32Type
       [Some (- 2147483648), Some (- 2147483648), Some (- 2147483648), Some (- 2147483648)])
       = - 8589934592"
    by (simp add: c6_simps)
  from one_pass_slices_sum_fits_int64
  have "one_pass_within_bounds Int32Type
          [Some (- 2147483648), Some (- 2147483648), Some (- 2147483648), Some (- 2147483648)]
          fresh_state"
    and "one_pass_within_bounds UInt8Type [Some 255, None, Some 255] fresh_state"
    by blast+
  then show ?thesis
    using a b c by (simp add: one_pass_within_bounds_def array_length_def null_count_def)
qed

section \<open>Merging states\<close>

text \<open>
  With exact arithmetic, merging is commutative and associative on states that hold
  values, and the fresh state is neutral.
\<close>

lemma scaled_square_quotient:
  fixes P s c u :: real
  assumes "s \<noteq> 0"
  shows "(N / s - z) * (N / s - z) * (s * c) / u = (N - z * s) * (N - z * s) * c / (s * u)"
proof -
  have "N / s - z = (N - z * s) / s"
    using assms by (simp add: diff_divide_distrib)
  then show ?thesis using assms by simp
qed

lemma merge_m2_assoc:
  fixes a b c x y z :: real
  assumes "0 < a" "0 < b" "0 < c"
  shows "(x - y) * (x - y) * (a * b) / (a + b)
           + ((a * x + b * y) / (a + b) - z) * ((a * x + b * y) / (a + b) - z) * ((a + b) * c) / (a + b + c)
         = (y - z) * (y - z) * (b * c) / (b + c)
           + (x - (b * y + c * z) / (b + c)) * (x - (b * y + c * z) / (b + c)) * (a * (b + c)) / (a + b + c)"
proof -
  let ?s = "a + b" and ?t = "b + c" and ?u = "a + b + c"
  let ?P = "a * x + b * y - z * ?s" and ?Q = "b * y + c * z - x * ?t"
  have nz: "?s \<noteq> 0" "?t \<noteq> 0" "?u \<noteq> 0"
    using assms by simp_all
  have l: "((a * x + b * y) / ?s - z) * ((a * x + b * y) / ?s - z) * (?s * c) / ?u
             = ?P * ?P * c / (?s * ?u)"
    using nz(1) by (rule scaled_square_quotient)
  have "(x - (b * y + c * z) / ?t) * (x - (b * y + c * z) / ?t)
          = ((b * y + c * z) / ?t - x) * ((b * y + c * z) / ?t - x)"
    by (simp add: algebra_simps)
  then have r: "(x - (b * y + c * z) / ?t) * (x - (b * y + c * z) / ?t) * (a * ?t) / ?u
             = ?Q * ?Q * a / (?t * ?u)"
    using scaled_square_quotient [OF nz(2), of "b * y + c * z" x a ?u]
    by (simp add: mult.commute [of a])
  have lhs: "(x - y) * (x - y) * (a * b) / ?s + ?P * ?P * c / (?s * ?u)
               = ((x - y) * (x - y) * (a * b) * ?u + ?P * ?P * c) / (?s * ?u)"
    using nz by (simp add: add_divide_distrib)
  have rhs: "(y - z) * (y - z) * (b * c) / ?t + ?Q * ?Q * a / (?t * ?u)
               = ((y - z) * (y - z) * (b * c) * ?u + ?Q * ?Q * a) / (?t * ?u)"
    using nz by (simp add: add_divide_distrib)
  have poly: "((x - y) * (x - y) * (a * b) * ?u + ?P * ?P * c) * (?t * ?u)
               = ((y - z) * (y - z) * (b * c) * ?u + ?Q * ?Q * a) * (?s * ?u)"
    by algebra
  have "((x - y) * (x - y) * (a * b) * ?u + ?P * ?P * c) / (?s * ?u)
          = ((y - z) * (y - z) * (b * c) * ?u + ?Q * ?Q * a) / (?t * ?u)"
    using nz poly by (simp add: frac_eq_eq)
  then show ?thesis
    by (simp only: l r lhs rhs)
qed

lemma merge_mean_assoc:
  fixes a b c x y z :: real
  assumes "0 < a" "0 < b" "0 < c"
  shows "((a + b) * ((a * x + b * y) / (a + b)) + c * z) / (a + b + c)
         = (a * x + (b + c) * ((b * y + c * z) / (b + c))) / (a + b + c)"
  using assms by simp

lemma MergeFrom_fresh_right: "MergeFrom a fresh_state = a"
  by (simp add: MergeFrom_def fresh_state_def)

lemma MergeFrom_fresh_left: "count a \<noteq> 0 \<Longrightarrow> MergeFrom fresh_state a = a"
  by (simp add: MergeFrom_def fresh_state_def)

lemma MergeFrom_commute:
  "count a \<noteq> 0 \<or> count b \<noteq> 0 \<Longrightarrow> MergeFrom a b = MergeFrom b a"
  by (auto simp: MergeFrom_def MergeVarStd_def algebra_simps)

lemma MergeFrom_assoc:
  assumes "0 < count a" "0 < count b" "0 < count c"
  shows "MergeFrom (MergeFrom a b) c = MergeFrom a (MergeFrom b c)"
proof -
  have p: "0 < real_of_int (count a)" "0 < real_of_int (count b)" "0 < real_of_int (count c)"
    using assms by simp_all
  have nz: "count a + count b \<noteq> 0" "count b + count c \<noteq> 0"
    using assms by simp_all
  show ?thesis
    using assms nz merge_m2_assoc [OF p, of "mean a" "mean b" "mean c"]
      merge_mean_assoc [OF p, of "mean a" "mean b" "mean c"]
    by (simp add: MergeFrom_def MergeVarStd_def add.assoc)
qed

lemma foldl_MergeFrom_count:
  "0 < count s \<Longrightarrow> \<forall>x \<in> set xs. 0 < count x \<Longrightarrow> 0 < count (foldl MergeFrom s xs)"
  by (induction xs arbitrary: s) (simp_all add: count_MergeFrom)

lemma MergeFrom_foldl:
  "0 < count a \<Longrightarrow> 0 < count s \<Longrightarrow> \<forall>x \<in> set xs. 0 < count x \<Longrightarrow>
   MergeFrom a (foldl MergeFrom s xs) = foldl MergeFrom (MergeFrom a s) xs"
proof (induction xs arbitrary: s)
  case Nil
  then show ?case by simp
next
  case (Cons x xs)
  have "0 < count (MergeFrom s x)"
    using Cons.prems by (simp add: count_MergeFrom)
  then have "MergeFrom a (foldl MergeFrom (MergeFrom s x) xs)
               = foldl MergeFrom (MergeFrom a (MergeFrom s x)) xs"
    using Cons.prems by (intro Cons.IH) simp_all
  also have "MergeFrom a (MergeFrom s x) = MergeFrom (MergeFrom a s) x"
    using Cons.prems by (simp add: MergeFrom_assoc)
  finally show ?case by simp
qed

text \<open>
  Merging the states of a sequence one after the other gives what merging the states of a
  prefix and of the rest, each merged on its own, gives.
\<close>

lemma MergeFrom_partition:
  assumes "0 < count s" "\<forall>x \<in> set xs. 0 < count x" "\<forall>y \<in> set ys. 0 < count y"
  shows "foldl MergeFrom s (xs @ ys)
           = MergeFrom (foldl MergeFrom s xs) (foldl MergeFrom fresh_state ys)"
proof (cases ys)
  case Nil
  then show ?thesis by (simp add: MergeFrom_fresh_right)
next
  case (Cons y ys')
  have p: "0 < count (foldl MergeFrom s xs)"
    using assms(1,2) by (rule foldl_MergeFrom_count)
  have "MergeFrom (foldl MergeFrom s xs) (foldl MergeFrom y ys')
          = foldl MergeFrom (MergeFrom (foldl MergeFrom s xs) y) ys'"
    using p assms(3) Cons by (intro MergeFrom_foldl) simp_all
  moreover have "MergeFrom fresh_state y = y"
    using assms(3) Cons by (intro MergeFrom_fresh_left) auto
  ultimately show ?thesis using Cons by simp
qed

section \<open>Consume and the state accumulated before\<close>

lemmas kernel_simps =
  Consume_def Consume_array_def Consume_two_pass_def Consume_one_pass_def one_pass_loop.simps
  Consume_scalar_def array_batch_def scalar_batch_def variance_impl_def VarStdImpl_init_def
  fresh_state_def Int64Type_def Int32Type_def array_length_def null_count_def SumArray_def
  Slice_def max_length_def MergeFrom_def MergeVarStd_def slice_state_def slice_var_std_def
  ConsumeOne_def ivs_mean_def ivs_m2_def Merge_def Finalize_def Let_def

text \<open>
  Claim C3, at the inputs where the code departs from it. A state that holds the two 64-bit
  values 1, 2 and then consumes the array 3, 4 holds the statistics of 3, 4 alone: the
  two-pass algorithm assigns its result to the state. A state that holds 5, 6, 7 and then
  consumes the scalar 5 in a batch of length 3 holds count 3, mean 5, m2 0: the scalar
  algorithm assigns too. The one-pass algorithm of the 32-bit type merges: from 1, 2 and
  the array 3, 4 it reaches the statistics of all four values.
\<close>

theorem Consume_assigns_over_accumulated_state:
  "Consume Int64Type (variance_impl\<lparr>state := \<lparr>count = 2, mean = 3 / 2, m2 = 1 / 2\<rparr>\<rparr>)
       (array_batch [Some 3, Some 4])
     = Some (variance_impl\<lparr>state := \<lparr>count = 2, mean = 7 / 2, m2 = 1 / 2\<rparr>\<rparr>)
   \<and> Consume Int32Type (variance_impl\<lparr>state := \<lparr>count = 3, mean = 6, m2 = 2\<rparr>\<rparr>)
       (scalar_batch 5 3)
     = Some (variance_impl\<lparr>state := \<lparr>count = 3, mean = 5, m2 = 0\<rparr>\<rparr>)
   \<and> Consume Int32Type (variance_impl\<lparr>state := \<lparr>count = 2, mean = 3 / 2, m2 = 1 / 2\<rparr>\<rparr>)
       (array_batch [Some 3, Some 4])
     = Some (variance_impl\<lparr>state := \<lparr>count = 4, mean = 5 / 2, m2 = 5\<rparr>\<rparr>)"
  by (simp add: kernel_simps)

text \<open>
  Claim C1, at an input where the code departs from it. The 64-bit batches 1, 2 and 3, 4,
  each consumed into a state of its own and the states merged, finalize to the variance
  5/4 of the four values; consumed one after the other into a single state they finalize
  to 1/4, the variance of the last batch.
\<close>

theorem partition_merge_differs_from_single_state:
  "Consume_all Int64Type variance_impl [array_batch [Some 1, Some 2]]
     = Some (variance_impl\<lparr>state := \<lparr>count = 2, mean = 3 / 2, m2 = 1 / 2\<rparr>\<rparr>)
   \<and> Consume_all Int64Type variance_impl [array_batch [Some 3, Some 4]]
     = Some (variance_impl\<lparr>state := \<lparr>count = 2, mean = 7 / 2, m2 = 1 / 2\<rparr>\<rparr>)
   \<and> Finalize (Merge (variance_impl\<lparr>state := \<lparr>count = 2, mean = 3 / 2, m2 = 1 / 2\<rparr>\<rparr>)
                      (variance_impl\<lparr>state := \<lparr>count = 2, mean = 7 / 2, m2 = 1 / 2\<rparr>\<rparr>))
     = DoubleScalar (Some (5 / 4))
   \<and> map_option Finalize
        (Consume_all Int64Type variance_impl [array_batch [Some 1, Some 2], array_batch [Some 3, Some 4]])
     = Some (DoubleScalar (Some (1 / 4)))"
  by (simp add: kernel_simps)

text \<open>
  The batches of \<^verbatim>\<open>TEST(ExecPlanExecution, ScalarSourceScalarAggSink)\<close>, the scalar 5 in a
  batch of length 3 and then the array 5, 6, 7, in exact arithmetic: count 6, mean 11/2,
  m2 7/2 and the variance 7/12.
\<close>

lemma ScalarSourceScalarAggSink_exact:
  "Consume_all Int32Type variance_impl [scalar_batch 5 3, array_batch [Some 5, Some 6, Some 7]]
     = Some (variance_impl\<lparr>state := \<lparr>count = 6, mean = 11 / 2, m2 = 7 / 2\<rparr>\<rparr>)
   \<and> Finalize (variance_impl\<lparr>state := \<lparr>count = 6, mean = 11 / 2, m2 = 7 / 2\<rparr>\<rparr>)
     = DoubleScalar (Some (7 / 12))"
  by (simp add: kernel_simps)

end
